theory Spec2Isabelle
  imports Main "HOL-Library.Sublist" "HOL-Library.AList" "HOL-Library.Multiset"
begin

section \<open>The file system\<close>

text \<open>
  The program (\<^verbatim>\<open>src/main.py\<close>) works on a directory tree through \<^verbatim>\<open>os\<close>,
  \<^verbatim>\<open>pathlib\<close> and \<^verbatim>\<open>shutil\<close>.  The tree is modelled as a value: a regular file
  carries its bytes, its modification time and whether it can be opened for reading; a
  directory carries whether entries can be added to or removed from it, and its listing
  in the order \<^verbatim>\<open>os.scandir\<close> yields it; \<open>Special\<close> is an entry that exists but
  is neither (a socket, a FIFO).  A path is the list of its segments below the root of the
  file system, so every path is absolute, as \<^verbatim>\<open>main\<close> makes \<^verbatim>\<open>root\<close> with
  \<^verbatim>\<open>Path(args.root).resolve()\<close>.  Characters are bytes; symbolic links are not
  modelled.
\<close>

type_synonym path = "string list"

datatype node =
    File (content: string) (mtime: int) (readable: bool)
  | Special
  | Dir (writable: bool) (entries: "(string \<times> node) list")

datatype error = OSError | ValueError | IndexError

fun lookup :: "node \<Rightarrow> path \<Rightarrow> node option" where
  "lookup n [] = Some n"
| "lookup (Dir w es) (s # p) = (case map_of es s of None \<Rightarrow> None | Some c \<Rightarrow> lookup c p)"
| "lookup _ (s # p) = None"

fun is_Dir :: "node \<Rightarrow> bool" where
  "is_Dir (Dir w es) = True"
| "is_Dir _ = False"

text \<open>\<^verbatim>\<open>Path.exists()\<close>, \<^verbatim>\<open>Path.is_file()\<close>, \<^verbatim>\<open>os.path.isdir\<close>.\<close>

definition path_exists :: "node \<Rightarrow> path \<Rightarrow> bool" where
  "path_exists fs p = (lookup fs p \<noteq> None)"

definition is_file :: "node \<Rightarrow> path \<Rightarrow> bool" where
  "is_file fs p = (case lookup fs p of Some (File c m r) \<Rightarrow> True | _ \<Rightarrow> False)"

definition is_dir :: "node \<Rightarrow> path \<Rightarrow> bool" where
  "is_dir fs p = (case lookup fs p of Some (Dir w es) \<Rightarrow> True | _ \<Rightarrow> False)"

text \<open>
  \<^verbatim>\<open>os.path.getsize\<close> and \<^verbatim>\<open>Path.stat()\<close> raise \<^verbatim>\<open>OSError\<close> on a path that
  does not exist.  The size and the timestamp of an entry that is not a regular file are
  not tracked by the model and read as 0.
\<close>

definition getsize :: "node \<Rightarrow> path \<Rightarrow> error + nat" where
  "getsize fs p =
     (case lookup fs p of
        None \<Rightarrow> Inl OSError
      | Some (File c m r) \<Rightarrow> Inr (length c)
      | Some _ \<Rightarrow> Inr 0)"

definition stat_mtime :: "node \<Rightarrow> path \<Rightarrow> error + int" where
  "stat_mtime fs p =
     (case lookup fs p of
        None \<Rightarrow> Inl OSError
      | Some (File c m r) \<Rightarrow> Inr m
      | Some _ \<Rightarrow> Inr 0)"

text \<open>
  \<^verbatim>\<open>os.walk(root)\<close>, top-down: one triple (dirpath, dirnames, filenames) for the
  directory, then the triples of each subdirectory in listing order.  On a root that is
  not a directory it yields nothing.
\<close>

fun os_walk_dir :: "path \<Rightarrow> node \<Rightarrow> (path \<times> string list \<times> string list) list" where
  "os_walk_dir dirpath (Dir w es) =
     (dirpath, map fst (filter (\<lambda>e. is_Dir (snd e)) es),
               map fst (filter (\<lambda>e. \<not> is_Dir (snd e)) es))
     # concat (map (\<lambda>e. os_walk_dir (dirpath @ [fst e]) (snd e)) (filter (\<lambda>e. is_Dir (snd e)) es))"
| "os_walk_dir dirpath _ = []"

definition os_walk :: "node \<Rightarrow> path \<Rightarrow> (path \<times> string list \<times> string list) list" where
  "os_walk fs root = (case lookup fs root of None \<Rightarrow> [] | Some n \<Rightarrow> os_walk_dir root n)"

text \<open>
  \<^verbatim>\<open>Path.mkdir(parents=True, exist_ok=True)\<close>: creates the missing directories of the
  path, each in a writable parent; an existing directory is kept; an existing entry that
  is not a directory raises.
\<close>

fun mkdir_p :: "node \<Rightarrow> path \<Rightarrow> error + node" where
  "mkdir_p (Dir w es) [] = Inr (Dir w es)"
| "mkdir_p (Dir w es) (s # p) =
     (case map_of es s of
        Some c \<Rightarrow>
          (case mkdir_p c p of Inl e \<Rightarrow> Inl e | Inr c' \<Rightarrow> Inr (Dir w (AList.update s c' es)))
      | None \<Rightarrow>
          if w then
            (case mkdir_p (Dir True []) p of
               Inl e \<Rightarrow> Inl e
             | Inr c' \<Rightarrow> Inr (Dir w (AList.update s c' es)))
          else Inl OSError)"
| "mkdir_p _ p = Inl OSError"

text \<open>
  Placing a node at a path whose parent is an existing writable directory (the creation
  of a file by \<^verbatim>\<open>open(dst, 'wb')\<close>, the arrival of a renamed entry), and taking the
  entry of a path out of its writable parent.
\<close>

fun attach :: "node \<Rightarrow> path \<Rightarrow> node \<Rightarrow> error + node" where
  "attach (Dir w es) [s] v = (if w then Inr (Dir w (AList.update s v es)) else Inl OSError)"
| "attach (Dir w es) (s # p) v =
     (case map_of es s of
        None \<Rightarrow> Inl OSError
      | Some c \<Rightarrow>
          (case attach c p v of Inl e \<Rightarrow> Inl e | Inr c' \<Rightarrow> Inr (Dir w (AList.update s c' es))))"
| "attach _ p v = Inl OSError"

fun detach :: "node \<Rightarrow> path \<Rightarrow> error + node" where
  "detach (Dir w es) [s] =
     (case map_of es s of
        None \<Rightarrow> Inl OSError
      | Some c \<Rightarrow> if w then Inr (Dir w (AList.delete s es)) else Inl OSError)"
| "detach (Dir w es) (s # p) =
     (case map_of es s of
        None \<Rightarrow> Inl OSError
      | Some c \<Rightarrow>
          (case detach c p of Inl e \<Rightarrow> Inl e | Inr c' \<Rightarrow> Inr (Dir w (AList.update s c' es))))"
| "detach _ p = Inl OSError"

text \<open>\<^verbatim>\<open>os.remove\<close> (and \<^verbatim>\<open>os.unlink\<close>): refuses a directory.\<close>

definition os_remove :: "node \<Rightarrow> path \<Rightarrow> error + node" where
  "os_remove fs p = (if is_dir fs p then Inl OSError else detach fs p)"

definition os_rename :: "node \<Rightarrow> path \<Rightarrow> path \<Rightarrow> error + node" where
  "os_rename fs a b =
     (case lookup fs a of
        None \<Rightarrow> Inl OSError
      | Some n \<Rightarrow> (case detach fs a of Inl e \<Rightarrow> Inl e | Inr fs' \<Rightarrow> attach fs' b n))"

text \<open>
  \<^verbatim>\<open>shutil.copy2(src, dst)\<close> reads a readable regular file and writes its bytes and
  its metadata to \<open>dst\<close>.  \<^verbatim>\<open>shutil.move(src, dst)\<close> renames, and when the rename
  raises it falls back, for a source that is not a directory, to \<^verbatim>\<open>copy2\<close> followed
  by \<^verbatim>\<open>os.unlink(src)\<close>.  \<^verbatim>\<open>organize_files\<close> reaches both only with a \<open>dst\<close> that
  does not exist; that is the case modelled.
\<close>

definition copy2 :: "node \<Rightarrow> path \<Rightarrow> path \<Rightarrow> error + node" where
  "copy2 fs a b =
     (case lookup fs a of
        Some (File c m r) \<Rightarrow> if r then attach fs b (File c m r) else Inl OSError
      | _ \<Rightarrow> Inl OSError)"

definition shutil_move :: "node \<Rightarrow> path \<Rightarrow> path \<Rightarrow> error + node" where
  "shutil_move fs a b =
     (case os_rename fs a b of
        Inr fs' \<Rightarrow> Inr fs'
      | Inl e \<Rightarrow>
          if is_dir fs a then Inl e
          else (case copy2 fs a b of Inl e' \<Rightarrow> Inl e' | Inr fs' \<Rightarrow> os_remove fs' a))"

section \<open>Paths and strings\<close>

text \<open>
  \<^verbatim>\<open>PurePath.name\<close>, \<^verbatim>\<open>.suffix\<close> and \<^verbatim>\<open>.stem\<close> as pathlib defines them up to
  Python 3.13: with \<^verbatim>\<open>i = name.rfind('.')\<close>, the suffix is \<^verbatim>\<open>name[i:]\<close> when
  \<^verbatim>\<open>0 < i < len(name) - 1\<close> and empty otherwise.
\<close>

fun rfind :: "char \<Rightarrow> string \<Rightarrow> int" where
  "rfind c [] = - 1"
| "rfind c (x # xs) = (let i = rfind c xs in if 0 \<le> i then i + 1 else if x = c then 0 else - 1)"

definition path_name :: "path \<Rightarrow> string" where
  "path_name p = (if p = [] then [] else last p)"

definition path_suffix :: "path \<Rightarrow> string" where
  "path_suffix p =
     (let name = path_name p; i = rfind (CHR ''.'') name
      in if 0 < i \<and> i < int (length name) - 1 then drop (nat i) name else [])"

definition path_stem :: "path \<Rightarrow> string" where
  "path_stem p =
     (let name = path_name p; i = rfind (CHR ''.'') name
      in if 0 < i \<and> i < int (length name) - 1 then take (nat i) name else name)"

text \<open>\<^verbatim>\<open>f.relative_to(root).parts\<close>; raises \<^verbatim>\<open>ValueError\<close> when \<open>f\<close> is not below \<open>root\<close>.\<close>

definition relative_to :: "path \<Rightarrow> path \<Rightarrow> error + path" where
  "relative_to f root = (if prefix root f then Inr (drop (length root) f) else Inl ValueError)"

text \<open>\<^verbatim>\<open>str(path)\<close>, the string \<^verbatim>\<open>os.walk\<close> gives as \<^verbatim>\<open>dirpath\<close>.\<close>

definition path_str :: "path \<Rightarrow> string" where
  "path_str p = (if p = [] then ''/'' else concat (map (\<lambda>s. ''/'' @ s) p))"

text \<open>\<^verbatim>\<open>str.lower()\<close> on ASCII, \<^verbatim>\<open>str.lstrip('.')\<close>, and \<^verbatim>\<open>str(counter)\<close>.\<close>

definition lower_char :: "char \<Rightarrow> char" where
  "lower_char c =
     (case map_of (zip ''ABCDEFGHIJKLMNOPQRSTUVWXYZ'' ''abcdefghijklmnopqrstuvwxyz'') c of
        None \<Rightarrow> c | Some l \<Rightarrow> l)"

definition lower :: "string \<Rightarrow> string" where
  "lower s = map lower_char s"

definition lstrip_dot :: "string \<Rightarrow> string" where
  "lstrip_dot s = dropWhile (\<lambda>c. c = CHR ''.'') s"

fun str_nat :: "nat \<Rightarrow> string" where
  "str_nat n =
     (if n < 10 then [''0123456789'' ! n]
      else str_nat (n div 10) @ [''0123456789'' ! (n mod 10)])"

declare str_nat.simps [simp del]

section \<open>Utility functions of the program\<close>

text \<open>
  \<^verbatim>\<open>compute_hash(path)\<close>: SHA-256 of the file's bytes, read in chunks; \<^verbatim>\<open>open\<close>
  raises on a missing path, a directory or an unreadable file.  The hash function is the
  parameter \<open>sha256\<close>; the theorems hold for every function in its place.
\<close>

definition compute_hash :: "(string \<Rightarrow> string) \<Rightarrow> node \<Rightarrow> path \<Rightarrow> error + string" where
  "compute_hash sha256 fs p =
     (case lookup fs p of
        Some (File c m r) \<Rightarrow> if r then Inr (sha256 c) else Inl OSError
      | _ \<Rightarrow> Inl OSError)"

definition safe_mkdir :: "node \<Rightarrow> path \<Rightarrow> error + node" where
  "safe_mkdir fs p = mkdir_p fs p"

definition is_same_file :: "(string \<Rightarrow> string) \<Rightarrow> node \<Rightarrow> path \<Rightarrow> path \<Rightarrow> error + bool" where
  "is_same_file sha256 fs a b =
     (case getsize fs a of
        Inl e \<Rightarrow> Inl e
      | Inr sa \<Rightarrow>
          (case getsize fs b of
             Inl e \<Rightarrow> Inl e
           | Inr sb \<Rightarrow>
               if sa \<noteq> sb then Inr False
               else (case compute_hash sha256 fs a of
                       Inl e \<Rightarrow> Inl e
                     | Inr ha \<Rightarrow>
                         (case compute_hash sha256 fs b of
                            Inl e \<Rightarrow> Inl e
                          | Inr hb \<Rightarrow> Inr (ha = hb)))))"

section \<open>scan\_files\<close>

definition ignored :: "string list \<Rightarrow> string \<Rightarrow> bool" where
  "ignored ignore_dirs dirpath = (\<exists>ig \<in> set ignore_dirs. sublist ig dirpath)"

text \<open>
  The loop over the triples of \<^verbatim>\<open>os.walk\<close>: \<^verbatim>\<open>continue\<close> on an ignored directory
  (before the \<^verbatim>\<open>break\<close> of the non-recursive mode is reached), otherwise the regular
  files among the file names, and \<^verbatim>\<open>break\<close> after the first directory that is not
  ignored when \<open>recursive\<close> is false.
\<close>

fun scan_loop ::
  "node \<Rightarrow> bool \<Rightarrow> string list \<Rightarrow> (path \<times> string list \<times> string list) list \<Rightarrow> path list" where
  "scan_loop fs recursive ignore_dirs [] = []"
| "scan_loop fs recursive ignore_dirs ((dirpath, dirnames, filenames) # rest) =
     (if ignored ignore_dirs (path_str dirpath) then scan_loop fs recursive ignore_dirs rest
      else filter (is_file fs) (map (\<lambda>fname. dirpath @ [fname]) filenames)
           @ (if \<not> recursive then [] else scan_loop fs recursive ignore_dirs rest))"

definition scan_files :: "node \<Rightarrow> path \<Rightarrow> bool \<Rightarrow> string list \<Rightarrow> path list" where
  "scan_files fs root recursive ignore_dirs = scan_loop fs recursive ignore_dirs (os_walk fs root)"

section \<open>organize\_files\<close>

datatype action = move | copy | skip_same

record op =
  action :: action
  src :: path
  dest :: path

text \<open>
  The \<^verbatim>\<open>while dest.exists()\<close> loop with its \<^verbatim>\<open>else\<close> clause.  It leaves through
  \<^verbatim>\<open>break\<close> (\<open>Same\<close>: the destination holds the same bytes), through the
  \<^verbatim>\<open>else\<close> (\<open>Free\<close>: the destination does not exist), or through an exception of
  \<^verbatim>\<open>is_same_file\<close>.
\<close>

datatype outcome = Same path | Free path

definition numbered :: "path \<Rightarrow> path \<Rightarrow> nat \<Rightarrow> path" where
  "numbered folder f counter = folder @ [path_stem f @ ''_'' @ str_nat counter @ path_suffix f]"

function dest_loop ::
  "(string \<Rightarrow> string) \<Rightarrow> node \<Rightarrow> path \<Rightarrow> path \<Rightarrow> path \<Rightarrow> nat \<Rightarrow> error + outcome" where
  "dest_loop sha256 fs f folder d counter =
     (if path_exists fs d then
        (case is_same_file sha256 fs d f of
           Inl e \<Rightarrow> Inl e
         | Inr same \<Rightarrow>
             if same then Inr (Same d)
             else dest_loop sha256 fs f folder (numbered folder f counter) (counter + 1))
      else Inr (Free d))"
  by pat_completeness auto

text \<open>The extension folder name: \<^verbatim>\<open>f.suffix.lower().lstrip('.') or 'no_ext'\<close>.\<close>

definition category :: "path \<Rightarrow> string" where
  "category f =
     (let e = lstrip_dot (lower (path_suffix f)) in if e = [] then ''no_ext'' else e)"

text \<open>The test that skips a file already in an extension folder.\<close>

definition already_in_folder :: "path \<Rightarrow> path \<Rightarrow> bool" where
  "already_in_folder parts f =
     (length parts \<ge> 2 \<and> lower (hd parts) = lstrip_dot (lower (path_suffix f)))"

text \<open>One iteration of \<^verbatim>\<open>for f in files\<close>, on the operations so far and the file system.\<close>

definition organize_step ::
  "(string \<Rightarrow> string) \<Rightarrow> path \<Rightarrow> path \<Rightarrow> bool \<Rightarrow> bool \<Rightarrow> op list \<times> node \<Rightarrow> path
     \<Rightarrow> error + op list \<times> node" where
  "organize_step sha256 root target_dir dry_run mv st f =
     (case relative_to f root of
        Inl e \<Rightarrow> Inl e
      | Inr parts \<Rightarrow>
          if already_in_folder parts f then Inr st
          else
            let folder = target_dir @ [category f] in
            (case safe_mkdir (snd st) folder of
               Inl e \<Rightarrow> Inl e
             | Inr fs1 \<Rightarrow>
                 (case dest_loop sha256 fs1 f folder (folder @ [path_name f]) 1 of
                    Inl e \<Rightarrow> Inl e
                  | Inr (Same d) \<Rightarrow>
                      Inr (fst st @ [\<lparr>action = skip_same, src = f, dest = d\<rparr>], fs1)
                  | Inr (Free d) \<Rightarrow>
                      let ops = fst st @ [\<lparr>action = (if \<not> mv then copy else move), src = f, dest = d\<rparr>]
                      in if \<not> dry_run then
                           (if mv then
                              (case shutil_move fs1 f d of
                                 Inl e \<Rightarrow> Inl e | Inr fs2 \<Rightarrow> Inr (ops, fs2))
                            else
                              (case copy2 fs1 f d of
                                 Inl e \<Rightarrow> Inl e | Inr fs2 \<Rightarrow> Inr (ops, fs2)))
                         else Inr (ops, fs1))))"

text \<open>A \<^verbatim>\<open>for\<close> loop whose body may raise: the first exception ends the loop.\<close>

fun for_each :: "('s \<Rightarrow> 'a \<Rightarrow> error + 's) \<Rightarrow> 's \<Rightarrow> 'a list \<Rightarrow> error + 's" where
  "for_each body st [] = Inr st"
| "for_each body st (x # xs) =
     (case body st x of Inl e \<Rightarrow> Inl e | Inr st' \<Rightarrow> for_each body st' xs)"

text \<open>
  \<^verbatim>\<open>organize_files(root, target_dir, dry_run, move, ignore_dirs)\<close>; \<open>target_dir\<close> is
  \<open>None\<close> for the default.  The result is the list \<^verbatim>\<open>ops\<close> and the file system the call
  leaves behind.
\<close>

definition organize_files ::
  "(string \<Rightarrow> string) \<Rightarrow> node \<Rightarrow> path \<Rightarrow> path option \<Rightarrow> bool \<Rightarrow> bool \<Rightarrow> string list
     \<Rightarrow> error + op list \<times> node" where
  "organize_files sha256 fs root target_dir dry_run mv ignore_dirs =
     (let files = scan_files fs root True ignore_dirs;
          target = (case target_dir of None \<Rightarrow> root | Some t \<Rightarrow> t)
      in for_each (organize_step sha256 root target dry_run mv) ([], fs) files)"

section \<open>find\_duplicates\<close>

text \<open>\<^verbatim>\<open>d[k].append(v)\<close> on a \<^verbatim>\<open>defaultdict(list)\<close>, which keeps its keys in insertion order.\<close>

fun dict_append :: "'k \<Rightarrow> 'v \<Rightarrow> ('k \<times> 'v list) list \<Rightarrow> ('k \<times> 'v list) list" where
  "dict_append k v [] = [(k, [v])]"
| "dict_append k v ((k', vs) # m) =
     (if k = k' then (k', vs @ [v]) # m else (k', vs) # dict_append k v m)"

definition size_map_of :: "node \<Rightarrow> path list \<Rightarrow> (nat \<times> path list) list" where
  "size_map_of fs files =
     foldl (\<lambda>m f. case getsize fs f of Inl e \<Rightarrow> m | Inr s \<Rightarrow> dict_append s f m) [] files"

definition hash_map_of :: "(string \<Rightarrow> string) \<Rightarrow> node \<Rightarrow> path list \<Rightarrow> (string \<times> path list) list" where
  "hash_map_of sha256 fs grp =
     foldl (\<lambda>m p. case compute_hash sha256 fs p of Inl e \<Rightarrow> m | Inr h \<Rightarrow> dict_append h p m) [] grp"

definition group_duplicates ::
  "(string \<Rightarrow> string) \<Rightarrow> node \<Rightarrow> path list \<Rightarrow> (string \<times> path list) list" where
  "group_duplicates sha256 fs files =
     concat (map (\<lambda>(size, grp).
                    if length grp < 2 then []
                    else filter (\<lambda>(h, plist). length plist > 1) (hash_map_of sha256 fs grp))
                 (size_map_of fs files))"

definition find_duplicates ::
  "(string \<Rightarrow> string) \<Rightarrow> node \<Rightarrow> path \<Rightarrow> string list \<Rightarrow> (string \<times> path list) list" where
  "find_duplicates sha256 fs root ignore_dirs =
     group_duplicates sha256 fs (scan_files fs root True ignore_dirs)"

section \<open>remove\_duplicates\<close>

record removal =
  hash :: string
  removed :: path
  kept :: path
  error :: "error option"

text \<open>
  \<^verbatim>\<open>sorted(plist, key=lambda p: p.stat().st_mtime)\<close>: the keys are computed first, and a
  \<^verbatim>\<open>stat\<close> that raises ends the call; the sort is stable.
\<close>

fun stat_keys :: "node \<Rightarrow> path list \<Rightarrow> error + (int \<times> path) list" where
  "stat_keys fs [] = Inr []"
| "stat_keys fs (p # ps) =
     (case stat_mtime fs p of
        Inl e \<Rightarrow> Inl e
      | Inr m \<Rightarrow> (case stat_keys fs ps of Inl e \<Rightarrow> Inl e | Inr r \<Rightarrow> Inr ((m, p) # r)))"

definition sorted_by_mtime :: "node \<Rightarrow> path list \<Rightarrow> error + path list" where
  "sorted_by_mtime fs plist =
     (case stat_keys fs plist of Inl e \<Rightarrow> Inl e | Inr keyed \<Rightarrow> Inr (map snd (sort_key fst keyed)))"

text \<open>
  The choice of the keeper; \<^verbatim>\<open>sorted_list[0]\<close> and \<^verbatim>\<open>sorted_list[-1]\<close> raise
  \<^verbatim>\<open>IndexError\<close> on an empty list.
\<close>

definition choose_keeper :: "string \<Rightarrow> path list \<Rightarrow> error + path \<times> path list" where
  "choose_keeper keep sorted_list =
     (if keep = ''first'' then
        (if sorted_list = [] then Inl IndexError else Inr (hd sorted_list, tl sorted_list))
      else if keep = ''latest'' then
        (if sorted_list = [] then Inl IndexError else Inr (last sorted_list, butlast sorted_list))
      else
        (if sorted_list = [] then Inl IndexError else Inr (hd sorted_list, tl sorted_list)))"

text \<open>
  The loop \<^verbatim>\<open>for p in to_remove\<close>: the record is appended, and unless \<open>dry_run\<close> the
  file is deleted; a deletion that raises sets the record's \<^verbatim>\<open>error\<close>.
\<close>

fun remove_each ::
  "bool \<Rightarrow> string \<Rightarrow> path \<Rightarrow> removal list \<times> node \<Rightarrow> path list \<Rightarrow> removal list \<times> node" where
  "remove_each dry_run h keeper st [] = st"
| "remove_each dry_run h keeper st (p # ps) =
     (let r = \<lparr>hash = h, removed = p, kept = keeper, error = None\<rparr>
      in if \<not> dry_run then
           (case os_remove (snd st) p of
              Inr fs' \<Rightarrow> remove_each dry_run h keeper (fst st @ [r], fs') ps
            | Inl e \<Rightarrow> remove_each dry_run h keeper (fst st @ [r\<lparr>error := Some e\<rparr>], snd st) ps)
         else remove_each dry_run h keeper (fst st @ [r], snd st) ps)"

text \<open>One iteration of \<^verbatim>\<open>for h, plist in duplicates\<close>.\<close>

definition remove_group ::
  "string \<Rightarrow> bool \<Rightarrow> removal list \<times> node \<Rightarrow> string \<times> path list \<Rightarrow> error + removal list \<times> node" where
  "remove_group keep dry_run st g =
     (case sorted_by_mtime (snd st) (snd g) of
        Inl e \<Rightarrow> Inl e
      | Inr sorted_list \<Rightarrow>
          (case choose_keeper keep sorted_list of
             Inl e \<Rightarrow> Inl e
           | Inr (keeper, to_remove) \<Rightarrow> Inr (remove_each dry_run (fst g) keeper st to_remove)))"

definition remove_duplicates ::
  "node \<Rightarrow> (string \<times> path list) list \<Rightarrow> string \<Rightarrow> bool \<Rightarrow> error + removal list \<times> node" where
  "remove_duplicates fs duplicates keep dry_run =
     for_each (remove_group keep dry_run) ([], fs) duplicates"

section \<open>Auxiliary definitions\<close>

text \<open>The value of a decimal digit, to read \<open>str_nat\<close> back.\<close>

definition digit_val :: "char \<Rightarrow> nat" where
  "digit_val c = (case map_of (zip ''0123456789'' [0..<10]) c of None \<Rightarrow> 0 | Some v \<Rightarrow> v)"

text \<open>
  The list a key holds in a \<^verbatim>\<open>defaultdict(list)\<close>, and the dictionary a loop builds
  that appends each element with a readable key to the list of its key.
\<close>

definition bucket :: "('k \<times> 'v list) list \<Rightarrow> 'k \<Rightarrow> 'v list" where
  "bucket m k = (case map_of m k of None \<Rightarrow> [] | Some vs \<Rightarrow> vs)"

definition collect :: "('v \<Rightarrow> error + 'k) \<Rightarrow> ('k \<times> 'v list) list \<Rightarrow> 'v list \<Rightarrow> ('k \<times> 'v list) list" where
  "collect key m xs = foldl (\<lambda>m x. case key x of Inl e \<Rightarrow> m | Inr k \<Rightarrow> dict_append k x m) m xs"

text \<open>The fixture of the scenario: \<open>root\<close> holds \<open>a.txt\<close> and \<open>b.txt\<close> with the bytes \<open>X\<close> and
  \<open>c.txt\<close> with the bytes \<open>Y\<close>, listed in this order.\<close>

definition fixture :: node where
  "fixture = Dir True [(''root'', Dir True
     [(''a.txt'', File ''X'' 1 True), (''b.txt'', File ''X'' 2 True), (''c.txt'', File ''Y'' 3 True)])]"


text \<open>
  What the program can observe at a path: the entry there, with the listing and the
  permission of a directory left out.
\<close>

definition view :: "node \<Rightarrow> path \<Rightarrow> node option" where
  "view fs p = (case lookup fs p of Some (Dir w es) \<Rightarrow> Some (Dir True []) | x \<Rightarrow> x)"








section \<open>The destination loop terminates\<close>

text \<open>
  A directory lists finitely many names and the numbered names of a file are pairwise
  different, so the counter passes the last numbered name that exists.
\<close>

lemma digit_val_nth: "d < 10 \<Longrightarrow> digit_val (''0123456789'' ! d) = d"
proof -
  assume "d < 10"
  then have "d \<in> set [0..<10]" by simp
  then have "d = 0 \<or> d = 1 \<or> d = 2 \<or> d = 3 \<or> d = 4 \<or> d = 5 \<or> d = 6 \<or> d = 7 \<or> d = 8 \<or> d = 9"
    by (auto simp add: upt_conv_Cons)
  then show ?thesis
    by (elim disjE) (simp_all add: digit_val_def upt_conv_Cons)
qed

lemma str_nat_inverse: "foldl (\<lambda>a c. 10 * a + digit_val c) 0 (str_nat n) = n"
proof (induction n rule: str_nat.induct)
  case (1 n)
  show ?case
  proof (cases "n < 10")
    case True
    then show ?thesis by (subst str_nat.simps) (simp add: digit_val_nth)
  next
    case False
    with 1 show ?thesis by (subst str_nat.simps) (simp add: digit_val_nth)
  qed
qed

lemma str_nat_inject: "str_nat m = str_nat n \<Longrightarrow> m = n"
  by (metis str_nat_inverse)


lemma lookup_append:
  "lookup fs (p @ q) = (case lookup fs p of None \<Rightarrow> None | Some n \<Rightarrow> lookup n q)"
  by (induction fs p rule: lookup.induct) (auto split: option.splits)

lemma path_exists_child:
  assumes "path_exists fs (folder @ [s])"
  shows "\<exists>w es. lookup fs folder = Some (Dir w es) \<and> s \<in> fst ` set es"
proof -
  from assms obtain n where n: "lookup fs folder = Some n" and c: "lookup n [s] \<noteq> None"
    by (auto simp: path_exists_def lookup_append split: option.splits)
  from c obtain w es where d: "n = Dir w es" by (cases n) auto
  with c have "map_of es s \<noteq> None" by (auto split: option.splits)
  then have "s \<in> fst ` set es" by (simp add: map_of_eq_None_iff)
  with n d show ?thesis by blast
qed

lemma finite_numbered_exists: "finite {k. path_exists fs (numbered folder f k)}"
proof (cases "lookup fs folder")
  case None
  then have "{k. path_exists fs (numbered folder f k)} = {}"
    by (auto simp: path_exists_def numbered_def lookup_append)
  then show ?thesis by simp
next
  case (Some n)
  let ?nm = "\<lambda>k. path_stem f @ ''_'' @ str_nat k @ path_suffix f"
  have inj: "inj ?nm" by (rule injI) (simp add: str_nat_inject)
  have "{k. path_exists fs (numbered folder f k)} \<subseteq> ?nm -` (fst ` set (entries n))"
  proof
    fix k assume "k \<in> {k. path_exists fs (numbered folder f k)}"
    then have "path_exists fs (folder @ [?nm k])" by (simp add: numbered_def)
    from path_exists_child[OF this] Some show "k \<in> ?nm -` (fst ` set (entries n))" by auto
  qed
  moreover have "finite (?nm -` (fst ` set (entries n)))"
    by (rule finite_vimageI[OF _ inj]) simp
  ultimately show ?thesis by (rule finite_subset)
qed

lemma dest_loop_measure:
  assumes "path_exists fs d"
  shows "(if path_exists fs (numbered folder f counter) then 1 else 0)
           + card {k. counter + 1 \<le> k \<and> path_exists fs (numbered folder f k)}
         < (if path_exists fs d then 1 else 0)
           + card {k. counter \<le> k \<and> path_exists fs (numbered folder f k)}"
proof -
  let ?S = "{k. path_exists fs (numbered folder f k)}"
  let ?A = "\<lambda>c. {k. c \<le> k \<and> path_exists fs (numbered folder f k)}"
  have fin: "finite (?A c)" for c
    by (rule finite_subset[OF _ finite_numbered_exists[of fs folder f]]) auto
  have split: "?A counter = (if counter \<in> ?S then {counter} else {}) \<union> ?A (counter + 1)"
    by (auto simp: Suc_le_eq le_less)
  have "card (?A counter) = (if counter \<in> ?S then 1 else 0) + card (?A (counter + 1))"
  proof (cases "counter \<in> ?S")
    case True
    have "card (?A counter) = card (insert counter (?A (counter + 1)))"
      using split True by simp
    also have "\<dots> = Suc (card (?A (counter + 1)))"
      by (rule card_insert_disjoint[OF fin]) simp
    finally show ?thesis using True by simp
  next
    case False
    then show ?thesis using split by simp
  qed
  with assms show ?thesis by simp
qed

termination dest_loop
proof (relation "measure (\<lambda>(sha256, fs, f, folder, d, counter).
        (if path_exists fs d then 1 else 0)
        + card {k. counter \<le> k \<and> path_exists fs (numbered folder f k)})", goal_cases)
  case 1
  show ?case by simp
next
  case (2 sha256 fs f folder d counter same)
  from dest_loop_measure[OF 2(1), of folder f counter] show ?case by simp
qed

declare dest_loop.simps [simp del]

section \<open>scan\_files: ignored directories\<close>

lemma path_str_prefix: "prefix d p \<Longrightarrow> prefix (path_str d) (path_str p)"
proof -
  assume "prefix d p"
  then obtain r where p: "p = d @ r" by (auto simp: prefix_def)
  show ?thesis
  proof (cases "d = []")
    case True
    then show ?thesis by (cases p) (simp_all add: path_str_def)
  next
    case False
    with p show ?thesis by (simp add: path_str_def)
  qed
qed

lemma sublist_prefix_trans: "sublist ig a \<Longrightarrow> prefix a b \<Longrightarrow> sublist ig b"
  by (auto simp: sublist_def prefix_def) (metis append.assoc)

lemma ignored_prefix: "ignored ign (path_str d) \<Longrightarrow> prefix d p \<Longrightarrow> ignored ign (path_str p)"
  unfolding ignored_def using path_str_prefix sublist_prefix_trans by blast

lemma scan_loop_mem:
  "f \<in> set (scan_loop fs recursive ign ws) \<Longrightarrow>
     \<exists>dirpath dn fns fname. (dirpath, dn, fns) \<in> set ws \<and> \<not> ignored ign (path_str dirpath)
        \<and> fname \<in> set fns \<and> f = dirpath @ [fname] \<and> is_file fs f"
proof (induction fs recursive ign ws rule: scan_loop.induct)
  case (1 fs recursive ign)
  then show ?case by simp
next
  case (2 fs recursive ign dirpath dirnames filenames rest)
  show ?case
  proof (cases "ignored ign (path_str dirpath)")
    case True
    with 2 show ?thesis by fastforce
  next
    case False
    note ni = this
    from "2.prems" False
    consider (here) "f \<in> set (filter (is_file fs) (map (\<lambda>fname. dirpath @ [fname]) filenames))"
      | (later) "recursive" "f \<in> set (scan_loop fs recursive ign rest)"
      by (auto split: if_splits)
    then show ?thesis
    proof cases
      case here
      then obtain fname where "fname \<in> set filenames" "f = dirpath @ [fname]" "is_file fs f" by auto
      with ni show ?thesis by fastforce
    next
      case later
      with "2.IH"(2)[OF ni] show ?thesis by fastforce
    qed
  qed
qed

text \<open>
  Claim C9.  No file that \<open>scan_files\<close> returns lies in a directory whose path string
  contains one of the ignore strings as a substring: neither the directory that holds the
  file nor any directory above it.  The test is a substring test on the path string, not a
  test on path segments: with \<open>lib\<close> ignored, the file under \<open>library_docs\<close> is left
  out like the file under \<open>lib\<close>.
\<close>

theorem scan_files_excludes_ignored:
  "(\<forall>f \<in> set (scan_files fs root recursive ignore_dirs). \<forall>ig \<in> set ignore_dirs. \<forall>d.
       prefix d (butlast f) \<longrightarrow> \<not> sublist ig (path_str d))
   \<and> scan_files
        (Dir True [(''r'', Dir True [(''library_docs'', Dir True [(''x.txt'', File ''X'' 0 True)]),
                                     (''lib'', Dir True [(''z.txt'', File ''Z'' 0 True)]),
                                     (''y.txt'', File ''Y'' 0 True)])])
        [''r''] True [''lib''] = [[''r'', ''y.txt'']]"
proof (intro conjI ballI allI impI)
  fix f ig d
  assume f: "f \<in> set (scan_files fs root recursive ignore_dirs)"
    and ig: "ig \<in> set ignore_dirs" and d: "prefix d (butlast f)"
  from scan_loop_mem[OF f[unfolded scan_files_def]]
  have ni: "\<not> ignored ignore_dirs (path_str (butlast f))" by auto
  show "\<not> sublist ig (path_str d)"
  proof
    assume "sublist ig (path_str d)"
    with ig have "ignored ignore_dirs (path_str d)" by (auto simp: ignored_def)
    from ignored_prefix[OF this d] ni show False by simp
  qed
next
  show "scan_files
        (Dir True [(''r'', Dir True [(''library_docs'', Dir True [(''x.txt'', File ''X'' 0 True)]),
                                     (''lib'', Dir True [(''z.txt'', File ''Z'' 0 True)]),
                                     (''y.txt'', File ''Y'' 0 True)])])
        [''r''] True [''lib''] = [[''r'', ''y.txt'']]"
    by code_simp
qed

theorem scan_files_excludes_ignored_witness:
  "[''r'', ''src'', ''y.txt''] \<in> set (scan_files
        (Dir True [(''r'', Dir True [(''library_docs'', Dir True [(''x.txt'', File ''X'' 0 True)]),
                                     (''src'', Dir True [(''y.txt'', File ''Y'' 0 True)])])])
        [''r''] True [''lib'', ''.git''])
   \<and> ''lib'' \<in> set [''lib'', ''.git''] \<and> prefix [''r''] (butlast [''r'', ''src'', ''y.txt''])
   \<and> \<not> sublist ''lib'' (path_str [''r''])"
proof -
  have a: "[''r'', ''src'', ''y.txt''] \<in> set (scan_files
        (Dir True [(''r'', Dir True [(''library_docs'', Dir True [(''x.txt'', File ''X'' 0 True)]),
                                     (''src'', Dir True [(''y.txt'', File ''Y'' 0 True)])])])
        [''r''] True [''lib'', ''.git''])"
    by code_simp
  have b: "''lib'' \<in> set [''lib'', ''.git'']" by simp
  have c: "prefix [''r''] (butlast [''r'', ''src'', ''y.txt''])" by simp
  from scan_files_excludes_ignored a b c show ?thesis by blast
qed

section \<open>remove\_duplicates: the order, the keeper and the records\<close>















section \<open>find\_duplicates: the groups\<close>

lemma bucket_Nil: "bucket [] k = []"
  by (simp add: bucket_def)

lemma bucket_dict_append:
  "bucket (dict_append k v m) k' = (if k' = k then bucket m k @ [v] else bucket m k')"
  by (induction m) (auto simp: bucket_def)

lemma keys_dict_append: "fst ` set (dict_append k v m) = insert k (fst ` set m)"
proof (induction m)
  case Nil
  show ?case by simp
next
  case (Cons a m)
  obtain k' vs where a: "a = (k', vs)" by (cases a)
  show ?case
  proof (cases "k = k'")
    case True
    with a show ?thesis by auto
  next
    case False
    with a Cons show ?thesis by auto
  qed
qed

lemma distinct_dict_append:
  "distinct (map fst m) \<Longrightarrow> distinct (map fst (dict_append k v m))"
proof (induction m)
  case Nil
  show ?case by simp
next
  case (Cons a m)
  obtain k' vs where a: "a = (k', vs)" by (cases a)
  from Cons a show ?case
    using keys_dict_append[of k v m] by auto
qed

lemma nonempty_dict_append:
  "[] \<notin> snd ` set m \<Longrightarrow> [] \<notin> snd ` set (dict_append k v m)"
proof (induction m)
  case Nil
  show ?case by simp
next
  case (Cons a m)
  obtain k' vs where a: "a = (k', vs)" by (cases a)
  show ?case
  proof (cases "k = k'")
    case True
    with a Cons.prems show ?thesis by auto
  next
    case False
    with a Cons show ?thesis by auto
  qed
qed

lemma collect_Cons:
  "collect key m (x # xs) = collect key (case key x of Inl e \<Rightarrow> m | Inr k \<Rightarrow> dict_append k x m) xs"
  by (simp add: collect_def)

lemma bucket_collect:
  "bucket (collect key m xs) k = bucket m k @ filter (\<lambda>x. key x = Inr k) xs"
proof (induction xs arbitrary: m)
  case Nil
  show ?case by (simp add: collect_def)
next
  case (Cons x xs)
  show ?case
    by (cases "key x") (auto simp: collect_Cons Cons bucket_dict_append)
qed

lemma wf_collect:
  "distinct (map fst m) \<Longrightarrow> [] \<notin> snd ` set m \<Longrightarrow>
     distinct (map fst (collect key m xs)) \<and> [] \<notin> snd ` set (collect key m xs)"
proof (induction xs arbitrary: m)
  case Nil
  then show ?case by (simp add: collect_def)
next
  case (Cons x xs)
  show ?case
  proof (cases "key x")
    case (Inl e)
    with Cons show ?thesis by (simp add: collect_Cons)
  next
    case (Inr k)
    from Cons.prems have "distinct (map fst (dict_append k x m))" "[] \<notin> snd ` set (dict_append k x m)"
      by (simp_all add: distinct_dict_append nonempty_dict_append)
    from Cons.IH[OF this] Inr show ?thesis by (simp add: collect_Cons)
  qed
qed

lemma collect_mem:
  "(k, vs) \<in> set (collect key [] xs) \<longleftrightarrow> vs = filter (\<lambda>x. key x = Inr k) xs \<and> vs \<noteq> []"
proof -
  let ?m = "collect key [] xs"
  from wf_collect[of "[]" key xs] have d: "distinct (map fst ?m)" and ne: "[] \<notin> snd ` set ?m"
    by simp_all
  have b: "bucket ?m k = filter (\<lambda>x. key x = Inr k) xs"
    by (simp add: bucket_collect bucket_Nil)
  show ?thesis
  proof
    assume m: "(k, vs) \<in> set ?m"
    with d have "map_of ?m k = Some vs" by simp
    then have "bucket ?m k = vs" by (simp add: bucket_def)
    moreover from m ne have "vs \<noteq> []" by force
    ultimately show "vs = filter (\<lambda>x. key x = Inr k) xs \<and> vs \<noteq> []" using b by simp
  next
    assume a: "vs = filter (\<lambda>x. key x = Inr k) xs \<and> vs \<noteq> []"
    from a have a1: "vs = filter (\<lambda>x. key x = Inr k) xs" and a2: "vs \<noteq> []" by blast+
    have "bucket ?m k = vs" unfolding a1 by (rule b)
    with a2 have bk: "bucket ?m k = vs" "vs \<noteq> []" by blast+
    then obtain ws where "map_of ?m k = Some ws" by (auto simp: bucket_def split: option.splits)
    with bk show "(k, vs) \<in> set ?m" by (auto simp: bucket_def dest: map_of_SomeD)
  qed
qed

lemma size_map_of_collect: "size_map_of fs files = collect (getsize fs) [] files"
  by (simp add: size_map_of_def collect_def)

lemma hash_map_of_collect: "hash_map_of sha256 fs grp = collect (compute_hash sha256 fs) [] grp"
  by (simp add: hash_map_of_def collect_def)

lemma group_duplicates_mem:
  "(h, plist) \<in> set (group_duplicates sha256 fs files) \<longleftrightarrow>
     (\<exists>s. plist = filter (\<lambda>p. compute_hash sha256 fs p = Inr h) (filter (\<lambda>f. getsize fs f = Inr s) files)
          \<and> length (filter (\<lambda>f. getsize fs f = Inr s) files) \<ge> 2 \<and> length plist > 1)"
  (is "?L \<longleftrightarrow> ?R")
proof
  assume ?L
  then obtain s grp where sg: "(s, grp) \<in> set (size_map_of fs files)" and l: "\<not> length grp < 2"
    and hp: "(h, plist) \<in> set (hash_map_of sha256 fs grp)" and lp: "length plist > 1"
    by (auto simp: group_duplicates_def split: if_splits)
  from sg have grp: "grp = filter (\<lambda>f. getsize fs f = Inr s) files"
    by (simp add: size_map_of_collect collect_mem)
  from hp have "plist = filter (\<lambda>p. compute_hash sha256 fs p = Inr h) grp"
    by (simp add: hash_map_of_collect collect_mem)
  with grp l lp show ?R by auto
next
  assume ?R
  then obtain s where pl: "plist = filter (\<lambda>p. compute_hash sha256 fs p = Inr h) (filter (\<lambda>f. getsize fs f = Inr s) files)"
    and l: "length (filter (\<lambda>f. getsize fs f = Inr s) files) \<ge> 2" and lp: "length plist > 1"
    by auto
  let ?grp = "filter (\<lambda>f. getsize fs f = Inr s) files"
  from l have "?grp \<noteq> []" by auto
  then have sg: "(s, ?grp) \<in> set (size_map_of fs files)"
    by (simp add: size_map_of_collect collect_mem)
  from lp have "plist \<noteq> []" by auto
  with pl have hp: "(h, plist) \<in> set (hash_map_of sha256 fs ?grp)"
    by (simp add: hash_map_of_collect collect_mem)
  from sg hp l lp show ?L
    by (force simp: group_duplicates_def)
qed

lemma two_distinct_length:
  assumes "f \<in> set xs" "g \<in> set xs" "f \<noteq> g"
  shows "length xs \<ge> 2"
proof -
  from assms have "{f, g} \<subseteq> set xs" by simp
  then have "card {f, g} \<le> card (set xs)" by (simp add: card_mono)
  with assms(3) have "2 \<le> card (set xs)" by simp
  also have "\<dots> \<le> length xs" by (rule card_length)
  finally show ?thesis .
qed

text \<open>
  Claim C3.  Two different scanned files with the same bytes, both readable, are put by
  \<open>find_duplicates\<close> into one group, the group of their digest, whatever their names and
  directories.  Every group emitted has at least two entries, and all entries of a group
  have the group's digest and one common size.
\<close>

theorem find_duplicates_groups:
  "(f \<in> set (scan_files fs root True ignore_dirs) \<and> g \<in> set (scan_files fs root True ignore_dirs)
      \<and> f \<noteq> g \<and> lookup fs f = Some (File c m True) \<and> lookup fs g = Some (File c m' True)
     \<longrightarrow> (\<exists>plist. (sha256 c, plist) \<in> set (find_duplicates sha256 fs root ignore_dirs)
            \<and> f \<in> set plist \<and> g \<in> set plist))
   \<and> (\<forall>(h, plist) \<in> set (find_duplicates sha256 fs root ignore_dirs).
          length plist \<ge> 2
          \<and> (\<exists>s. \<forall>p \<in> set plist. getsize fs p = Inr s \<and> compute_hash sha256 fs p = Inr h))"
proof (intro conjI impI)
  let ?files = "scan_files fs root True ignore_dirs"
  assume a: "f \<in> set ?files \<and> g \<in> set ?files
      \<and> f \<noteq> g \<and> lookup fs f = Some (File c m True) \<and> lookup fs g = Some (File c m' True)"
  let ?grp = "filter (\<lambda>x. getsize fs x = Inr (length c)) ?files"
  let ?pl = "filter (\<lambda>p. compute_hash sha256 fs p = Inr (sha256 c)) ?grp"
  from a have sz: "getsize fs f = Inr (length c)" "getsize fs g = Inr (length c)"
    by (simp_all add: getsize_def)
  from a have hs: "compute_hash sha256 fs f = Inr (sha256 c)" "compute_hash sha256 fs g = Inr (sha256 c)"
    by (simp_all add: compute_hash_def)
  from a sz have ing: "f \<in> set ?grp" "g \<in> set ?grp" by simp_all
  with hs have inp: "f \<in> set ?pl" "g \<in> set ?pl" by simp_all
  from a have ne: "f \<noteq> g" by simp
  have "length ?grp \<ge> 2" by (rule two_distinct_length[OF ing ne])
  moreover have "length ?pl \<ge> 2" by (rule two_distinct_length[OF inp ne])
  ultimately have "(sha256 c, ?pl) \<in> set (find_duplicates sha256 fs root ignore_dirs)"
    unfolding find_duplicates_def group_duplicates_mem by auto
  with inp show "\<exists>plist. (sha256 c, plist) \<in> set (find_duplicates sha256 fs root ignore_dirs)
            \<and> f \<in> set plist \<and> g \<in> set plist" by blast
next
  show "\<forall>(h, plist) \<in> set (find_duplicates sha256 fs root ignore_dirs).
          length plist \<ge> 2
          \<and> (\<exists>s. \<forall>p \<in> set plist. getsize fs p = Inr s \<and> compute_hash sha256 fs p = Inr h)"
  proof (clarify, intro conjI)
    fix h plist
    assume "(h, plist) \<in> set (find_duplicates sha256 fs root ignore_dirs)"
    then obtain s where pl: "plist = filter (\<lambda>p. compute_hash sha256 fs p = Inr h)
            (filter (\<lambda>f. getsize fs f = Inr s) (scan_files fs root True ignore_dirs))"
      and l: "length plist > 1"
      unfolding find_duplicates_def group_duplicates_mem by auto
    from l show "2 \<le> length plist" by simp
    from pl have "\<forall>p \<in> set plist. getsize fs p = Inr s \<and> compute_hash sha256 fs p = Inr h" by auto
    then show "\<exists>s. \<forall>p \<in> set plist. getsize fs p = Inr s \<and> compute_hash sha256 fs p = Inr h" ..
  qed
qed

theorem find_duplicates_groups_witness:
  "[''root'', ''a.txt''] \<in> set (scan_files fixture [''root''] True [])
   \<and> [''root'', ''b.txt''] \<in> set (scan_files fixture [''root''] True [])
   \<and> [''root'', ''a.txt''] \<noteq> [''root'', ''b.txt'']
   \<and> lookup fixture [''root'', ''a.txt''] = Some (File ''X'' 1 True)
   \<and> lookup fixture [''root'', ''b.txt''] = Some (File ''X'' 2 True)
   \<and> (\<exists>plist. (id ''X'', plist) \<in> set (find_duplicates id fixture [''root''] [])
          \<and> [''root'', ''a.txt''] \<in> set plist \<and> [''root'', ''b.txt''] \<in> set plist)"
proof -
  have a: "[''root'', ''a.txt''] \<in> set (scan_files fixture [''root''] True [])"
    and b: "[''root'', ''b.txt''] \<in> set (scan_files fixture [''root''] True [])"
    by code_simp+
  have c: "[''root'', ''a.txt''] \<noteq> [''root'', ''b.txt'']" by simp
  have d: "lookup fixture [''root'', ''a.txt''] = Some (File ''X'' 1 True)"
    and e: "lookup fixture [''root'', ''b.txt''] = Some (File ''X'' 2 True)"
    by (simp_all add: fixture_def)
  from find_duplicates_groups[of "[''root'', ''a.txt'']" fixture "[''root'']" "[]"
      "[''root'', ''b.txt'']" "''X''" 1 2 id] a b c d e
  show ?thesis by blast
qed

section \<open>organize\_files: the destination loop\<close>








section \<open>Suffixes and categories\<close>












section \<open>organize\_files: the files that are skipped\<close>




section \<open>The scenario of the three files\<close>

text \<open>
  Claim C2, as stated, fails in its last part: \<open>organize_files\<close> compares a file with
  what lies at its destination, not with the other files, and \<open>txt/b.txt\<close> does not
  exist when \<open>b.txt\<close> is reached.  All three files are moved and no \<open>skip_same\<close> is
  emitted.  (The hash function plays no part here; it is instantiated with the identity.)
\<close>

theorem three_files_counterexample:
  "organize_files id fixture [''root''] (Some [''root'']) False True []
     = Inr ([\<lparr>action = move, src = [''root'', ''a.txt''], dest = [''root'', ''txt'', ''a.txt'']\<rparr>,
             \<lparr>action = move, src = [''root'', ''b.txt''], dest = [''root'', ''txt'', ''b.txt'']\<rparr>,
             \<lparr>action = move, src = [''root'', ''c.txt''], dest = [''root'', ''txt'', ''c.txt'']\<rparr>],
            Dir True [(''root'', Dir True
                [(''txt'', Dir True [(''a.txt'', File ''X'' 1 True), (''b.txt'', File ''X'' 2 True),
                                     (''c.txt'', File ''Y'' 3 True)])])])"
  by code_simp

text \<open>
  Claim C2, amended.  On the fixture (\<open>a.txt\<close> and \<open>b.txt\<close> with the bytes \<open>X\<close>,
  \<open>c.txt\<close> with the bytes \<open>Y\<close>, nothing ignored), for every hash function that
  tells \<open>X\<close> from \<open>Y\<close>: \<open>find_duplicates\<close> returns exactly one group, of size 2,
  with \<open>a.txt\<close> and \<open>b.txt\<close>; and \<open>organize_files\<close> with \<open>move\<close> emits a move into
  \<open>txt/\<close> for each of \<open>a.txt\<close>, \<open>b.txt\<close> and \<open>c.txt\<close> and no \<open>skip_same\<close>, with and
  without \<open>dry_run\<close>.
\<close>

theorem three_files:
  assumes "sha256 ''X'' \<noteq> sha256 ''Y''"
  shows "find_duplicates sha256 fixture [''root''] []
       = [(sha256 ''X'', [[''root'', ''a.txt''], [''root'', ''b.txt'']])]
     \<and> organize_files sha256 fixture [''root''] (Some [''root'']) False True []
       = Inr ([\<lparr>action = move, src = [''root'', ''a.txt''], dest = [''root'', ''txt'', ''a.txt'']\<rparr>,
               \<lparr>action = move, src = [''root'', ''b.txt''], dest = [''root'', ''txt'', ''b.txt'']\<rparr>,
               \<lparr>action = move, src = [''root'', ''c.txt''], dest = [''root'', ''txt'', ''c.txt'']\<rparr>],
              Dir True [(''root'', Dir True
                [(''txt'', Dir True [(''a.txt'', File ''X'' 1 True), (''b.txt'', File ''X'' 2 True),
                                     (''c.txt'', File ''Y'' 3 True)])])])
     \<and> organize_files sha256 fixture [''root''] (Some [''root'']) True True []
       = Inr ([\<lparr>action = move, src = [''root'', ''a.txt''], dest = [''root'', ''txt'', ''a.txt'']\<rparr>,
               \<lparr>action = move, src = [''root'', ''b.txt''], dest = [''root'', ''txt'', ''b.txt'']\<rparr>,
               \<lparr>action = move, src = [''root'', ''c.txt''], dest = [''root'', ''txt'', ''c.txt'']\<rparr>],
              Dir True [(''root'', Dir True
                [(''a.txt'', File ''X'' 1 True), (''b.txt'', File ''X'' 2 True),
                 (''c.txt'', File ''Y'' 3 True), (''txt'', Dir True [])])])"
proof (intro conjI)
  from assms show "find_duplicates sha256 fixture [''root''] []
       = [(sha256 ''X'', [[''root'', ''a.txt''], [''root'', ''b.txt'']])]"
    by (simp add: find_duplicates_def group_duplicates_def size_map_of_def hash_map_of_def
        scan_files_def os_walk_def fixture_def ignored_def is_file_def getsize_def compute_hash_def)
next
  show "organize_files sha256 fixture [''root''] (Some [''root'']) False True []
       = Inr ([\<lparr>action = move, src = [''root'', ''a.txt''], dest = [''root'', ''txt'', ''a.txt'']\<rparr>,
               \<lparr>action = move, src = [''root'', ''b.txt''], dest = [''root'', ''txt'', ''b.txt'']\<rparr>,
               \<lparr>action = move, src = [''root'', ''c.txt''], dest = [''root'', ''txt'', ''c.txt'']\<rparr>],
              Dir True [(''root'', Dir True
                [(''txt'', Dir True [(''a.txt'', File ''X'' 1 True), (''b.txt'', File ''X'' 2 True),
                                     (''c.txt'', File ''Y'' 3 True)])])])"
    by code_simp
next
  show "organize_files sha256 fixture [''root''] (Some [''root'']) True True []
       = Inr ([\<lparr>action = move, src = [''root'', ''a.txt''], dest = [''root'', ''txt'', ''a.txt'']\<rparr>,
               \<lparr>action = move, src = [''root'', ''b.txt''], dest = [''root'', ''txt'', ''b.txt'']\<rparr>,
               \<lparr>action = move, src = [''root'', ''c.txt''], dest = [''root'', ''txt'', ''c.txt'']\<rparr>],
              Dir True [(''root'', Dir True
                [(''a.txt'', File ''X'' 1 True), (''b.txt'', File ''X'' 2 True),
                 (''c.txt'', File ''Y'' 3 True), (''txt'', Dir True [])])])"
    by code_simp
qed

theorem three_files_witness:
  "id ''X'' \<noteq> (id ''Y'' :: string)
   \<and> find_duplicates id fixture [''root''] []
       = [(id ''X'', [[''root'', ''a.txt''], [''root'', ''b.txt'']])]"
proof -
  have a: "id ''X'' \<noteq> (id ''Y'' :: string)" by simp
  from three_files[OF a] a show ?thesis by blast
qed

section \<open>Errors on single files\<close>

text \<open>
  Claim C4 on the code.  \<open>find_duplicates\<close> leaves out a file whose hash cannot be
  computed and goes on.  \<open>organize_files\<close> does not: \<open>a.txt\<close> cannot be read, its
  destination \<open>txt/a.txt\<close> exists with the same size, so \<open>is_same_file\<close> hashes both
  and the exception of \<open>compute_hash\<close> ends the call before \<open>b.txt\<close> is reached.  In
  \<open>remove_duplicates\<close> a deletion that fails is recorded and the loop goes on, but a
  path whose \<open>stat\<close> fails ends the call, and the second group is never reached.
\<close>

theorem per_file_error_aborts:
  "find_duplicates id
      (Dir True [(''root'', Dir True
         [(''a.txt'', File ''X'' 1 False), (''b.txt'', File ''Y'' 2 True), (''c.txt'', File ''Y'' 3 True),
          (''txt'', Dir True [(''a.txt'', File ''Z'' 3 True)])])])
      [''root''] []
     = [(''Y'', [[''root'', ''b.txt''], [''root'', ''c.txt'']])]
   \<and> organize_files id
      (Dir True [(''root'', Dir True
         [(''a.txt'', File ''X'' 1 False), (''b.txt'', File ''Y'' 2 True), (''c.txt'', File ''Y'' 3 True),
          (''txt'', Dir True [(''a.txt'', File ''Z'' 3 True)])])])
      [''root''] (Some [''root'']) False True []
     = Inl OSError
   \<and> remove_duplicates
      (Dir True [(''root'', Dir False [(''b.txt'', File ''Y'' 2 True), (''c.txt'', File ''Y'' 3 True)])])
      [(''Y'', [[''root'', ''b.txt''], [''root'', ''c.txt'']])] ''first'' False
     = Inr ([\<lparr>hash = ''Y'', removed = [''root'', ''c.txt''], kept = [''root'', ''b.txt''],
               error = Some OSError\<rparr>],
            Dir True [(''root'', Dir False [(''b.txt'', File ''Y'' 2 True), (''c.txt'', File ''Y'' 3 True)])])
   \<and> remove_duplicates
      (Dir True [(''root'', Dir True [(''b.txt'', File ''Y'' 2 True), (''c.txt'', File ''Y'' 3 True)])])
      [(''X'', [[''root'', ''a.txt''], [''root'', ''gone.txt'']]),
       (''Y'', [[''root'', ''b.txt''], [''root'', ''c.txt'']])] ''first'' False
     = Inl OSError"
  by code_simp

section \<open>What the file system operations change\<close>







lemma lookup_file_view: "lookup fs p = Some (File c m r) \<longleftrightarrow> view fs p = Some (File c m r)"
  by (auto simp: view_def split: option.splits node.splits)
















section \<open>Dry runs\<close>





















section \<open>Numbered names keep the category\<close>


lemma path_suffix_snoc: "path_suffix (p @ [n]) = path_suffix [n]"
  by (simp add: path_suffix_def path_name_def)

lemma category_snoc: "category (p @ [n]) = category [n]"
  by (simp add: category_def path_suffix_snoc)








section \<open>scan\_files: the files it returns\<close>







section \<open>scan\_files returns no file twice\<close>







section \<open>Running organize\_files twice\<close>

















end
